theory Spec2Isabelle
  imports Main "HOL-Library.AList" "HOL-Library.Sublist"
begin

unbundle bit_operations_syntax

text \<open>
  A model of \<^verbatim>\<open>fermipy/jobs/file_archive.py\<close>: the classifier \<^verbatim>\<open>FileDict\<close>, the
  record \<^verbatim>\<open>FileHandle\<close> and the archive \<^verbatim>\<open>FileArchive\<close>. The module is Python 2
  code (\<^verbatim>\<open>xrange\<close>, \<^verbatim>\<open>dict.has_key\<close>): strings are byte strings, integers are
  unbounded. A method that mutates \<^verbatim>\<open>self\<close> is a function that returns the new
  value of \<^verbatim>\<open>self\<close>; an exception is a value of the type \<open>error\<close>.
\<close>

section \<open>Enumerations and errors\<close>

text \<open>
  \<^verbatim>\<open>FileStatus\<close> is the enumeration of file states of \<^verbatim>\<open>file_archive.py\<close>
  (\<^verbatim>\<open>no_file = 0\<close> ... \<^verbatim>\<open>temp_removed = 5\<close>). \<^verbatim>\<open>FileFlags\<close> are plain
  integer bit masks that the code combines with \<^verbatim>\<open>|\<close> and \<^verbatim>\<open>&\<close>.
\<close>

datatype FileStatus = no_file | expected | exists | missing | superseded | temp_removed

definition no_flags :: int where "no_flags = 0"
definition input_mask :: int where "input_mask = 1"
definition output_mask :: int where "output_mask = 2"
definition rm_mask :: int where "rm_mask = 4"
definition gz_mask :: int where "gz_mask = 8"
definition internal_mask :: int where "internal_mask = 16"

text \<open>The Python exceptions that the modelled functions can raise.\<close>

datatype error = KeyError | ValueError | AttributeError | IndexError

section \<open>Strings\<close>

text \<open>
  \<^verbatim>\<open>s.replace(old, new)\<close>: every non-overlapping occurrence of \<^verbatim>\<open>old\<close>, found
  from the left, is replaced. With an empty \<^verbatim>\<open>old\<close> Python puts \<^verbatim>\<open>new\<close> before
  every character and at the end.
\<close>

function str_replace :: "string \<Rightarrow> string \<Rightarrow> string \<Rightarrow> string" where
  "str_replace s old new =
     (if old = [] then new @ concat (map (\<lambda>c. c # new) s)
      else if s = [] then []
      else if take (length old) s = old
        then new @ str_replace (drop (length old) s) old new
      else hd s # str_replace (tl s) old new)"
  by pat_completeness auto
termination
  by (relation "measure (\<lambda>(s, old, new). length s)") auto

declare str_replace.simps [simp del]

text \<open>\<^verbatim>\<open>old in s\<close>: does \<^verbatim>\<open>old\<close> occur in \<^verbatim>\<open>s\<close>.\<close>

fun str_contains :: "string \<Rightarrow> string \<Rightarrow> bool" where
  "str_contains [] old = (old = [])"
| "str_contains (c # cs) old = (take (length old) (c # cs) = old \<or> str_contains cs old)"

text \<open>
  \<^verbatim>\<open>s.split()\<close> with no separator: the maximal runs of non-whitespace characters.
\<close>

definition is_space :: "char \<Rightarrow> bool" where
  "is_space c = (c \<in> set [CHR '' '', CHR 0x09, CHR 0x0A, CHR 0x0B, CHR 0x0C, CHR 0x0D])"

fun split_from :: "string \<Rightarrow> string \<Rightarrow> string list" where
  "split_from cur [] = (if cur = [] then [] else [cur])"
| "split_from cur (c # cs) =
     (if is_space c then (if cur = [] then split_from [] cs else cur # split_from [] cs)
      else split_from (cur @ [c]) cs)"

definition str_split :: "string \<Rightarrow> string list" where
  "str_split s = split_from [] s"

section \<open>FileDict: the files used and created by a link\<close>

text \<open>
  A Python dictionary is an association list with distinct keys, read with
  \<^const>\<open>map_of\<close> and written with \<^const>\<open>AList.update\<close> (replace in place, or append).
  \<^verbatim>\<open>file_args\<close> maps an argument name to its flags, \<^verbatim>\<open>file_dict\<close> maps a
  file path to its flags.
\<close>

record FileDict =
  file_args :: "(string \<times> int) list"
  file_dict :: "(string \<times> int) list"

text \<open>
  One pass of the loop of \<^verbatim>\<open>latch_file_info\<close>. The argument dictionary \<^verbatim>\<open>args\<close>
  maps a name to a string or to \<^verbatim>\<open>None\<close>; a name it does not hold raises
  \<^verbatim>\<open>KeyError\<close>, which the loop body catches and ignores.
\<close>

fun latch_entry ::
  "(string \<rightharpoonup> string option) \<Rightarrow> string \<times> int \<Rightarrow> (string \<times> int) list \<Rightarrow> (string \<times> int) list"
where
  "latch_entry args (key, val) fd =
     (case args key of
        None \<Rightarrow> fd
      | Some None \<Rightarrow> fd
      | Some (Some file_path) \<Rightarrow>
          if take 4 key = ''args''
          then fold (\<lambda>token d. AList.update (str_replace token ''.gz'' '''') val d)
                 (str_split file_path) fd
          else AList.update (str_replace file_path ''.gz'' '''') val fd)"

definition latch_file_info :: "FileDict \<Rightarrow> (string \<rightharpoonup> string option) \<Rightarrow> FileDict" where
  "latch_file_info self args = self\<lparr>file_dict := fold (latch_entry args) (file_args self) []\<rparr>"

text \<open>
  The paths that the argument \<open>key\<close> names in \<open>args\<close>, for stating what the
  classifier enters: the value itself, the whitespace-separated parts of the value for a
  multi-file argument (a name that starts with \<^verbatim>\<open>args\<close>), and none when the argument
  is absent or \<^verbatim>\<open>None\<close>.
\<close>

definition arg_paths :: "(string \<rightharpoonup> string option) \<Rightarrow> string \<Rightarrow> string list" where
  "arg_paths args key =
     (case args key of
        None \<Rightarrow> []
      | Some None \<Rightarrow> []
      | Some (Some file_path) \<Rightarrow>
          if take 4 key = ''args'' then str_split file_path else [file_path])"

text \<open>The keys under which the paths of an argument are entered.\<close>

definition normal_paths :: "(string \<rightharpoonup> string option) \<Rightarrow> string \<Rightarrow> string list" where
  "normal_paths args key = map (\<lambda>path. str_replace path ''.gz'' '''') (arg_paths args key)"

text \<open>
  \<^verbatim>\<open>FileDict.update\<close>: the argument is a dictionary from path to flags, given by its
  items.
\<close>

fun update_entry :: "string \<times> int \<Rightarrow> (string \<times> int) list \<Rightarrow> (string \<times> int) list" where
  "update_entry (key, val) fd =
     (case map_of fd key of
        Some cur \<Rightarrow> AList.update key (cur OR val) fd
      | None \<Rightarrow> AList.update key val fd)"

definition FileDict_update :: "FileDict \<Rightarrow> (string \<times> int) list \<Rightarrow> FileDict" where
  "FileDict_update self items = self\<lparr>file_dict := fold update_entry items (file_dict self)\<rparr>"

section \<open>FileHandle and FileArchive\<close>

text \<open>
  A \<^verbatim>\<open>FileHandle\<close> has six members. A row of the archive's table has the same six
  columns (\<^verbatim>\<open>_append_to_table\<close> writes them, \<^verbatim>\<open>_create_from_row\<close> reads them), so a
  row is a value of the same record type. The values are taken to fit the columns: the
  conversions of the table library (integer width, the 256 bytes of the path column)
  are not part of the model.
\<close>

record FileHandle =
  key :: int
  creator :: int
  timestamp :: int
  status :: FileStatus
  flags :: int
  path :: string

text \<open>
  The archive: the table (a list of rows, in order), the cache (an
  \<^verbatim>\<open>OrderedDict\<close> from local path to handle) and the base path.
\<close>

record FileArchive =
  table_file :: string
  table :: "FileHandle list"
  cache :: "(string \<times> FileHandle) list"
  base_path :: string

text \<open>
  The file system as the archive reads it: a path that \<^verbatim>\<open>os.path.exists\<close> is mapped
  to \<^verbatim>\<open>int(os.stat(path).st_mtime)\<close>. One call sees one file system (the file does
  not change between \<^verbatim>\<open>os.path.exists\<close> and \<^verbatim>\<open>os.stat\<close>), and paths are taken to be
  names that the operating system accepts.
\<close>

type_synonym filesystem = "string \<rightharpoonup> int"

definition append_to_table :: "FileHandle \<Rightarrow> FileHandle list \<Rightarrow> FileHandle list" where
  "append_to_table self tbl =
     tbl @ [\<lparr>key = key self, creator = creator self, timestamp = timestamp self,
             status = status self, flags = flags self, path = path self\<rparr>]"

text \<open>
  \<^verbatim>\<open>self._table[i]\<close> builds a row object for an integer index; an index outside
  \<^verbatim>\<open>-n .. n-1\<close> raises \<^verbatim>\<open>IndexError\<close>. The result is the position of the row.
\<close>

definition table_row :: "FileHandle list \<Rightarrow> int \<Rightarrow> error + nat" where
  "table_row tbl i =
     (let n = int (length tbl)
      in if i < - n \<or> n \<le> i then Inl IndexError
         else Inr (nat (if i < 0 then n + i else i)))"

text \<open>
  \<^verbatim>\<open>_update_table_row(self, table_row)\<close> has the single statement
  \<^verbatim>\<open>table_row = dict(path=self.path, ...)\<close>: it binds the local name
  \<^verbatim>\<open>table_row\<close> to a new dictionary and returns. The row of the table is not written.
\<close>

definition update_table_row :: "FileHandle \<Rightarrow> nat \<Rightarrow> FileHandle list \<Rightarrow> FileHandle list" where
  "update_table_row self row tbl = tbl"

text \<open>\<^verbatim>\<open>os.path.join\<close> of two components (POSIX).\<close>

definition os_path_join :: "string \<Rightarrow> string \<Rightarrow> string" where
  "os_path_join a b =
     (if take 1 b = ''/'' then b
      else if a = [] \<or> last a = CHR ''/'' then a @ b
      else a @ ''/'' @ b)"

text \<open>\<^verbatim>\<open>filepath[0]\<close> raises \<^verbatim>\<open>IndexError\<close> on the empty string.\<close>

definition get_fullpath :: "FileArchive \<Rightarrow> string \<Rightarrow> error + string" where
  "get_fullpath self filepath =
     (case filepath of
        [] \<Rightarrow> Inl IndexError
      | c # _ \<Rightarrow>
          if c = CHR ''/'' then Inr filepath
          else Inr (os_path_join (base_path self) filepath))"

definition get_localpath :: "FileArchive \<Rightarrow> string \<Rightarrow> string" where
  "get_localpath self filepath = str_replace filepath (base_path self) []"

definition fill_cache :: "FileArchive \<Rightarrow> FileArchive" where
  "fill_cache self =
     self\<lparr>cache := fold (\<lambda>row c. AList.update (path row) row c) (table self) (cache self)\<rparr>"

text \<open>
  \<^verbatim>\<open>_read_table_file\<close>: \<^verbatim>\<open>stored\<close> is the content of the table file, \<open>None\<close>
  when the file does not exist.
\<close>

definition read_table_file :: "FileArchive \<Rightarrow> string \<Rightarrow> FileHandle list option \<Rightarrow> FileArchive" where
  "read_table_file self tf stored =
     fill_cache (self\<lparr>table_file := tf,
                      table := (case stored of Some rows \<Rightarrow> rows | None \<Rightarrow> [])\<rparr>)"

definition FileArchive_init :: "string \<Rightarrow> string \<Rightarrow> FileHandle list option \<Rightarrow> FileArchive" where
  "FileArchive_init bp tf stored =
     read_table_file \<lparr>table_file = [], table = [], cache = [], base_path = bp\<rparr> tf stored"

definition get_handle :: "FileArchive \<Rightarrow> string \<Rightarrow> error + FileHandle" where
  "get_handle self filepath =
     (case map_of (cache self) (get_localpath self filepath) of
        None \<Rightarrow> Inl KeyError
      | Some file_handle \<Rightarrow> Inr file_handle)"

text \<open>
  The first statement of \<^verbatim>\<open>register_file\<close>:
  \<^verbatim>\<open>
  try:
      file_handle = self.get_handle(filepath)
      raise KeyError("File %s already exists in archive"%filepath)
  except KeyError:
      pass
  \<close>
  The \<^verbatim>\<open>raise\<close> stands inside the \<^verbatim>\<open>try\<close> block, so the handler catches it too.
\<close>

definition check_not_registered :: "FileArchive \<Rightarrow> string \<Rightarrow> error + unit" where
  "check_not_registered self filepath =
     (case (case get_handle self filepath of
              Inl e \<Rightarrow> Inl e
            | Inr file_handle \<Rightarrow> Inl KeyError) of
        Inl KeyError \<Rightarrow> Inr ()
      | Inl e \<Rightarrow> Inl e
      | Inr u \<Rightarrow> Inr u)"

text \<open>
  The operations return the result (a value or the exception raised) together with the
  archive as it is when they return or raise. The message that \<^verbatim>\<open>register_file\<close>
  prints when the file of a registration with status \<^verbatim>\<open>exists\<close> is not on the disk is
  output only and has no place in the model.
\<close>

definition register_file ::
  "filesystem \<Rightarrow> FileArchive \<Rightarrow> string \<Rightarrow> int \<Rightarrow> FileStatus \<Rightarrow> int
     \<Rightarrow> (error + FileHandle) \<times> FileArchive"
where
  "register_file fs self filepath creator_in status_in flags_in =
     (case check_not_registered self filepath of
        Inl e \<Rightarrow> (Inl e, self)
      | Inr _ \<Rightarrow>
          let localpath = get_localpath self filepath in
          (case (if status_in = exists then
                   (case get_fullpath self filepath of
                      Inl e \<Rightarrow> Inl e
                    | Inr fullpath \<Rightarrow>
                        (case fs fullpath of
                           None \<Rightarrow> Inr (missing, 0)
                         | Some mtime \<Rightarrow> Inr (exists, mtime)))
                 else Inr (status_in, 0)) of
             Inl e \<Rightarrow> (Inl e, self)
           | Inr (status_new, timestamp_new) \<Rightarrow>
               let key_new = int (length (table self)) + 1;
                   file_handle = \<lparr>key = key_new, creator = creator_in,
                                  timestamp = timestamp_new, status = status_new,
                                  flags = flags_in, path = localpath\<rparr>
               in (Inr file_handle,
                   self\<lparr>table := append_to_table file_handle (table self),
                        cache := AList.update localpath file_handle (cache self)\<rparr>)))"

text \<open>
  \<^verbatim>\<open>update_file\<close> reads \<^verbatim>\<open>file_handle.fullpath\<close>. A \<^verbatim>\<open>FileHandle\<close> has the
  attributes \<^verbatim>\<open>key\<close>, \<^verbatim>\<open>creator\<close>, \<^verbatim>\<open>timestamp\<close>, \<^verbatim>\<open>status\<close>, \<^verbatim>\<open>flags\<close>
  and \<^verbatim>\<open>path\<close>, set by its constructor; the class defines no \<^verbatim>\<open>fullpath\<close>, so
  the read raises \<^verbatim>\<open>AttributeError\<close>.
\<close>

definition fullpath_attr :: "FileHandle \<Rightarrow> error + string" where
  "fullpath_attr file_handle = Inl AttributeError"

text \<open>
  The handle that \<^verbatim>\<open>update_file\<close> mutates is the object held by the cache under the
  local path, so the assignments to its members are an update of that cache entry.
\<close>

definition update_file ::
  "filesystem \<Rightarrow> FileArchive \<Rightarrow> string \<Rightarrow> int \<Rightarrow> FileStatus
     \<Rightarrow> (error + FileHandle) \<times> FileArchive"
where
  "update_file fs self filepath creator_in status_in =
     (case get_handle self filepath of
        Inl e \<Rightarrow> (Inl e, self)
      | Inr file_handle \<Rightarrow>
          (case (if status_in = exists \<or> status_in = superseded then
                   (case fullpath_attr file_handle of
                      Inl e \<Rightarrow> Inl e
                    | Inr fullpath \<Rightarrow>
                        (case fs fullpath of
                           None \<Rightarrow> Inl ValueError
                         | Some mtime \<Rightarrow> Inr mtime))
                 else Inr 0) of
             Inl e \<Rightarrow> (Inl e, self)
           | Inr timestamp_new \<Rightarrow>
               let updated = file_handle\<lparr>creator := creator_in, timestamp := timestamp_new,
                                          status := status_in\<rparr>;
                   self1 = self\<lparr>cache := AList.update (get_localpath self filepath) updated
                                              (cache self)\<rparr>
               in (case table_row (table self1) (key updated - 1) of
                     Inl e \<Rightarrow> (Inl e, self1)
                   | Inr row \<Rightarrow>
                       (Inr updated,
                        self1\<lparr>table := update_table_row updated row (table self1)\<rparr>))))"

text \<open>
  The loop of \<^verbatim>\<open>get_file_ids\<close> over \<^verbatim>\<open>file_list\<close>; its state is \<^verbatim>\<open>ret_list\<close>,
  the creator (set to \<open>-1\<close> at the first registration when none was given) and the
  archive. \<^verbatim>\<open>file_dict.file_dict[fname]\<close> raises \<^verbatim>\<open>KeyError\<close> for a name the
  dictionary does not hold.
\<close>

fun get_file_ids_loop ::
  "filesystem \<Rightarrow> FileStatus \<Rightarrow> FileDict option \<Rightarrow> string list \<Rightarrow> int list \<Rightarrow> int option
     \<Rightarrow> FileArchive \<Rightarrow> (error + int list) \<times> FileArchive"
where
  "get_file_ids_loop fs status_in fd [] ret_list creator_in self = (Inr ret_list, self)"
| "get_file_ids_loop fs status_in fd (fname # file_list) ret_list creator_in self =
     (case (case fd of
              None \<Rightarrow> Inr no_flags
            | Some d \<Rightarrow>
                (case map_of (file_dict d) fname of
                   None \<Rightarrow> Inl KeyError
                 | Some f \<Rightarrow> Inr f)) of
        Inl e \<Rightarrow> (Inl e, self)
      | Inr flags_in \<Rightarrow>
          (case get_handle self fname of
             Inr fhandle \<Rightarrow>
               get_file_ids_loop fs status_in fd file_list (ret_list @ [key fhandle])
                 creator_in self
           | Inl KeyError \<Rightarrow>
               let creator_new = (case creator_in of None \<Rightarrow> - 1 | Some c \<Rightarrow> c) in
               (case register_file fs self fname creator_new status_in flags_in of
                  (Inl e, self1) \<Rightarrow> (Inl e, self1)
                | (Inr fhandle, self1) \<Rightarrow>
                    get_file_ids_loop fs status_in fd file_list (ret_list @ [key fhandle])
                      (Some creator_new) self1)
           | Inl e \<Rightarrow> (Inl e, self)))"

definition get_file_ids ::
  "filesystem \<Rightarrow> FileArchive \<Rightarrow> string list \<Rightarrow> int option \<Rightarrow> FileStatus \<Rightarrow> FileDict option
     \<Rightarrow> (error + int list) \<times> FileArchive"
where
  "get_file_ids fs self file_list creator_in status_in fd =
     get_file_ids_loop fs status_in fd file_list [] creator_in self"

text \<open>
  A run of the archive: a sequence of calls, each with the file system as it is at
  that moment. A call that raises leaves the archive as it was when it raised.
\<close>

datatype archive_op =
    Register string int FileStatus int
  | Update string int FileStatus
  | GetFileIds "string list" "int option" FileStatus "FileDict option"

fun apply_op :: "filesystem \<times> archive_op \<Rightarrow> FileArchive \<Rightarrow> FileArchive" where
  "apply_op (fs, Register filepath c s f) self = snd (register_file fs self filepath c s f)"
| "apply_op (fs, Update filepath c s) self = snd (update_file fs self filepath c s)"
| "apply_op (fs, GetFileIds file_list c s fd) self = snd (get_file_ids fs self file_list c s fd)"

definition run :: "(filesystem \<times> archive_op) list \<Rightarrow> FileArchive \<Rightarrow> FileArchive" where
  "run ops self = fold apply_op ops self"

text \<open>The keys of the rows of a table are \<open>1, 2, ..., n\<close>, in the order of the rows.\<close>

definition keys_consecutive :: "FileHandle list \<Rightarrow> bool" where
  "keys_consecutive tbl = (map key tbl = map int [1..<Suc (length tbl)])"

section \<open>Example values\<close>

text \<open>Two classifiers that share the path \<^verbatim>\<open>b.fits\<close>.\<close>

definition link_a :: FileDict where
  "link_a = \<lparr>file_args = [],
              file_dict = [(''a.fits'', input_mask), (''b.fits'', output_mask)]\<rparr>"

definition link_b :: FileDict where
  "link_b = \<lparr>file_args = [],
              file_dict = [(''b.fits'', input_mask), (''c.fits'', internal_mask)]\<rparr>"

text \<open>The schema and the arguments of the classifier scenario of the specification.\<close>

definition io_link :: FileDict where
  "io_link = \<lparr>file_args = [(''infile'', input_mask), (''outfile'', output_mask)],
               file_dict = []\<rparr>"

definition io_args :: "string \<rightharpoonup> string option" where
  "io_args = [''infile'' \<mapsto> Some ''a.fits'', ''outfile'' \<mapsto> Some ''b.fits.gz'']"

text \<open>A schema with a multi-file argument, and arguments that name three files.\<close>

definition multi_link :: FileDict where
  "multi_link = \<lparr>file_args = [(''args'', input_mask), (''outfile'', output_mask)],
                  file_dict = []\<rparr>"

definition multi_args :: "string \<rightharpoonup> string option" where
  "multi_args = [''args'' \<mapsto> Some ''a.fits b.fits.gz'', ''outfile'' \<mapsto> Some ''c.fits.gz'']"

text \<open>
  A file system that holds one file, modified at time 1000, and a fresh archive (no
  table file on disk) with base path \<^verbatim>\<open>/data\<close>.
\<close>

definition evt_fs :: filesystem where
  "evt_fs = [''/data/run1/evt.fits'' \<mapsto> 1000]"

definition fresh_archive :: FileArchive where
  "fresh_archive = FileArchive_init ''/data'' ''file_archive.fits'' None"

text \<open>The path of that file, and the archive after the file has been registered.\<close>

definition evt_path :: string where
  "evt_path = ''/data/run1/evt.fits''"

definition registered_archive :: FileArchive where
  "registered_archive = snd (register_file evt_fs fresh_archive evt_path 7 exists no_flags)"

text \<open>A fresh archive whose base path ends with the separator.\<close>

definition slash_archive :: FileArchive where
  "slash_archive = FileArchive_init ''/data/'' ''file_archive.fits'' None"

text \<open>
  A run: register the file, mark it removed after it has been deleted from the disk,
  then resolve another path.
\<close>

definition example_ops :: "(filesystem \<times> archive_op) list" where
  "example_ops =
     [(evt_fs, Register evt_path 7 exists no_flags),
      (Map.empty, Update evt_path 8 temp_removed),
      (Map.empty, GetFileIds [''c.fits''] None expected None)]"

section \<open>Properties of the string functions\<close>

lemma str_replace_Nil [simp]: "str_replace [] old [] = []"
  by (subst str_replace.simps) simp

lemma str_replace_empty_old [simp]: "str_replace s [] [] = s"
  by (subst str_replace.simps) (induction s, auto)

lemma str_replace_prefix:
  "old \<noteq> [] \<Longrightarrow> str_replace (old @ s) old new = new @ str_replace s old new"
  by (subst str_replace.simps) simp

lemma str_replace_no_occurrence:
  "\<not> str_contains s old \<Longrightarrow> str_replace s old new = s"
proof (induction s)
  case Nil
  then show ?case by (subst str_replace.simps) simp
next
  case (Cons c cs)
  then show ?case by (subst str_replace.simps) auto
qed

lemma str_replace_gz_step:
  "str_replace x ''.gz'' [] =
     (if x = [] then []
      else if take 3 x = ''.gz'' then str_replace (drop 3 x) ''.gz'' []
      else hd x # str_replace (tl x) ''.gz'' [])"
  by (subst str_replace.simps) (simp add: numeral_3_eq_3)

text \<open>No occurrence of \<^verbatim>\<open>.gz\<close> starts inside \<open>p\<close> and ends in an appended \<^verbatim>\<open>.gz\<close>.\<close>

lemma take3_append_gz:
  assumes "p \<noteq> []" and "take 3 p \<noteq> ''.gz''"
  shows "take 3 (p @ ''.gz'') \<noteq> ''.gz''"
proof (cases "3 \<le> length p")
  case True
  then show ?thesis using assms by simp
next
  case False
  then show ?thesis using assms(1)
    by (cases p; cases "tl p"; cases "tl (tl p)") auto
qed

lemma str_replace_gz_suffix:
  "str_replace (p @ ''.gz'') ''.gz'' [] = str_replace p ''.gz'' []"
proof (induction p "''.gz''" "[] :: string" rule: str_replace.induct)
  case (1 s)
  show ?case
  proof (cases "s = []")
    case True
    then show ?thesis by (simp add: str_replace_gz_step[of "''.gz''"])
  next
    case False
    note ne = this
    show ?thesis
    proof (cases "take 3 s = ''.gz''")
      case True
      then have "length (take 3 s) = 3" by simp
      then have len: "3 \<le> length s" by simp
      have "str_replace (s @ ''.gz'') ''.gz'' [] = str_replace (drop 3 s @ ''.gz'') ''.gz'' []"
        using True len ne by (subst str_replace_gz_step) simp
      also have "\<dots> = str_replace (drop 3 s) ''.gz'' []"
        using 1(1) ne True by (simp add: numeral_3_eq_3)
      also have "\<dots> = str_replace s ''.gz'' []"
        using True ne by (subst (2) str_replace_gz_step) simp
      finally show ?thesis .
    next
      case False
      have nt: "take 3 (s @ ''.gz'') \<noteq> ''.gz''"
        using take3_append_gz[OF ne False] .
      have "str_replace (s @ ''.gz'') ''.gz'' [] = hd s # str_replace (tl s @ ''.gz'') ''.gz'' []"
        using nt ne by (subst str_replace_gz_step) simp
      also have "\<dots> = hd s # str_replace (tl s) ''.gz'' []"
        using 1(2) ne False by (simp add: numeral_3_eq_3)
      also have "\<dots> = str_replace s ''.gz'' []"
        using False ne by (subst (2) str_replace_gz_step) simp
      finally show ?thesis .
    qed
  qed
qed

section \<open>The classifier: \<^verbatim>\<open>latch_file_info\<close>\<close>

text \<open>
  One pass of the loop writes the flag of the argument under every key of
  \<open>normal_paths\<close> and leaves the other entries as they are; over the whole schema the
  last argument that names a path decides its flag.
\<close>

lemma map_of_fold_update_tokens:
  "map_of (fold (\<lambda>token d. AList.update (f token) val d) ts d) p =
     (if p \<in> f ` set ts then Some val else map_of d p)"
  by (induction ts arbitrary: d) (auto simp: update_conv')

lemma map_of_latch_entry:
  "map_of (latch_entry args (k, v) fd) p =
     (if p \<in> set (normal_paths args k) then Some v else map_of fd p)"
  by (auto simp: normal_paths_def arg_paths_def map_of_fold_update_tokens update_conv'
      split: option.splits)

lemma map_of_fold_latch_entry_other:
  "\<forall>(k, v) \<in> set es. p \<notin> set (normal_paths args k) \<Longrightarrow>
   map_of (fold (latch_entry args) es fd) p = map_of fd p"
proof (induction es arbitrary: fd)
  case Nil
  show ?case by simp
next
  case (Cons e es)
  obtain k v where e: "e = (k, v)" by (cases e)
  have "map_of (fold (latch_entry args) es (latch_entry args e fd)) p =
      map_of (latch_entry args e fd) p"
    using Cons.prems by (intro Cons.IH) simp
  also have "\<dots> = map_of fd p"
    using Cons.prems e by (simp add: map_of_latch_entry del: latch_entry.simps)
  finally show ?case by simp
qed

lemma map_of_fold_latch_entry_last:
  assumes "p \<in> set (normal_paths args k)"
    and "\<forall>(k', v') \<in> set es2. p \<notin> set (normal_paths args k')"
  shows "map_of (fold (latch_entry args) (es1 @ (k, v) # es2) fd) p = Some v"
proof -
  have "map_of (fold (latch_entry args) (es1 @ (k, v) # es2) fd) p =
      map_of (fold (latch_entry args) es2
        (latch_entry args (k, v) (fold (latch_entry args) es1 fd))) p"
    by simp
  also have "\<dots> = map_of (latch_entry args (k, v) (fold (latch_entry args) es1 fd)) p"
    using assms(2) by (rule map_of_fold_latch_entry_other)
  also have "\<dots> = Some v"
    using assms(1) by (simp add: map_of_latch_entry del: latch_entry.simps)
  finally show ?thesis .
qed

lemma map_of_fold_latch_entry_unique:
  assumes "(k, v) \<in> set es" and "distinct (map fst es)"
    and "p \<in> set (normal_paths args k)"
    and "\<forall>(k', v') \<in> set es. k' \<noteq> k \<longrightarrow> p \<notin> set (normal_paths args k')"
  shows "map_of (fold (latch_entry args) es fd) p = Some v"
proof -
  from assms(1) obtain es1 es2 where es: "es = es1 @ (k, v) # es2"
    by (auto simp: in_set_conv_decomp)
  have "\<forall>(k', v') \<in> set es2. p \<notin> set (normal_paths args k')"
  proof (clarify)
    fix k' v'
    assume in2: "(k', v') \<in> set es2" and p: "p \<in> set (normal_paths args k')"
    from in2 have "k' \<in> fst ` set es2" by (metis fst_conv image_eqI)
    with assms(2) es have "k' \<noteq> k" by auto
    moreover from in2 es have "(k', v') \<in> set es" by simp
    ultimately have "p \<notin> set (normal_paths args k')" using assms(4) by blast
    with p show False by simp
  qed
  with assms(3) show ?thesis unfolding es by (rule map_of_fold_latch_entry_last)
qed

lemma keys_latch_entry_iff:
  "p \<in> fst ` set (latch_entry args (k, v) fd) \<longleftrightarrow>
     p \<in> fst ` set fd \<or> p \<in> set (normal_paths args k)"
proof -
  have "p \<in> fst ` set (latch_entry args (k, v) fd) \<longleftrightarrow>
      map_of (latch_entry args (k, v) fd) p \<noteq> None"
    by (simp only: map_of_eq_None_iff not_not)
  also have "\<dots> \<longleftrightarrow> p \<in> set (normal_paths args k) \<or> map_of fd p \<noteq> None"
    by (simp only: map_of_latch_entry split: if_splits) simp
  also have "\<dots> \<longleftrightarrow> p \<in> fst ` set fd \<or> p \<in> set (normal_paths args k)"
    by (auto simp only: map_of_eq_None_iff not_not)
  finally show ?thesis .
qed

lemma keys_fold_latch_entry_iff:
  "p \<in> fst ` set (fold (latch_entry args) es fd) \<longleftrightarrow>
     p \<in> fst ` set fd \<or> (\<exists>(k, v) \<in> set es. p \<in> set (normal_paths args k))"
proof (induction es arbitrary: fd)
  case Nil
  show ?case by simp
next
  case (Cons e es)
  obtain k v where e: "e = (k, v)" by (cases e)
  show ?case
    using Cons.IH[of "latch_entry args (k, v) fd"] keys_latch_entry_iff[of p args k v fd] e
    by (auto simp del: latch_entry.simps)
qed

lemma clean_path_normal:
  assumes "t \<in> set (arg_paths args k) \<or> t @ ''.gz'' \<in> set (arg_paths args k)"
    and "\<not> str_contains t ''.gz''"
  shows "t \<in> set (normal_paths args k)"
proof -
  have n: "str_replace t ''.gz'' [] = t"
    using assms(2) by (rule str_replace_no_occurrence)
  then have n': "str_replace (t @ ''.gz'') ''.gz'' [] = t"
    by (simp add: str_replace_gz_suffix)
  from assms(1) show ?thesis
  proof
    assume "t \<in> set (arg_paths args k)"
    then have "str_replace t ''.gz'' [] \<in> set (normal_paths args k)"
      unfolding normal_paths_def by (simp only: set_map) (rule imageI)
    then show ?thesis by (simp only: n)
  next
    assume "t @ ''.gz'' \<in> set (arg_paths args k)"
    then have "str_replace (t @ ''.gz'') ''.gz'' [] \<in> set (normal_paths args k)"
      unfolding normal_paths_def by (simp only: set_map) (rule imageI)
    then show ?thesis by (simp only: n')
  qed
qed

lemma normal_tokens_eq:
  "list_all2 (\<lambda>t t'. t' = t \<or> t' = t @ ''.gz'') ts ts' \<Longrightarrow>
   map (\<lambda>t. str_replace t ''.gz'' []) ts' = map (\<lambda>t. str_replace t ''.gz'' []) ts"
  by (induction rule: list_all2_induct) (auto simp: str_replace_gz_suffix)

lemma fold_update_tokens_map:
  "fold (\<lambda>token d. AList.update (f token) val d) ts d =
   fold (\<lambda>q d. AList.update q val d) (map f ts) d"
  by (simp add: fold_map comp_def)

lemma latch_entry_single_gz:
  assumes "take 4 k \<noteq> ''args''"
  shows "latch_entry (args(k \<mapsto> Some (p @ ''.gz''))) e fd = latch_entry (args(k \<mapsto> Some p)) e fd"
  using assms by (cases e) (auto simp: str_replace_gz_suffix)

lemma latch_entry_multi_gz:
  assumes "take 4 k = ''args''"
    and "list_all2 (\<lambda>t t'. t' = t \<or> t' = t @ ''.gz'') (str_split x) (str_split x')"
  shows "latch_entry (args(k \<mapsto> Some x')) e fd = latch_entry (args(k \<mapsto> Some x)) e fd"
proof (cases e)
  case (Pair key val)
  show ?thesis
  proof (cases "key = k")
    case False
    with Pair show ?thesis by simp
  next
    case True
    have "fold (\<lambda>token d. AList.update (str_replace token ''.gz'' []) val d) (str_split x') fd =
        fold (\<lambda>q d. AList.update q val d)
          (map (\<lambda>t. str_replace t ''.gz'' []) (str_split x')) fd"
      by (rule fold_update_tokens_map)
    also have "\<dots> = fold (\<lambda>q d. AList.update q val d)
          (map (\<lambda>t. str_replace t ''.gz'' []) (str_split x)) fd"
      by (simp only: normal_tokens_eq[OF assms(2)])
    also have "\<dots> =
        fold (\<lambda>token d. AList.update (str_replace token ''.gz'' []) val d) (str_split x) fd"
      by (rule fold_update_tokens_map[symmetric])
    finally have "fold (\<lambda>token d. AList.update (str_replace token ''.gz'' []) val d)
          (str_split x') fd =
        fold (\<lambda>token d. AList.update (str_replace token ''.gz'' []) val d) (str_split x) fd" .
    with Pair True assms(1) show ?thesis by simp
  qed
qed

text \<open>
  Claim C7, as amended. The classifier strips a trailing compression suffix. For every
  schema and argument map: (1) a single-file argument with the value \<open>p\<close> followed by
  \<^verbatim>\<open>.gz\<close> and with the value \<open>p\<close> gives the same flags map; (2) so does a multi-file
  argument (a name that starts with \<^verbatim>\<open>args\<close>) with two values whose parts agree one
  by one up to a trailing \<^verbatim>\<open>.gz\<close>; (3) a path \<open>t\<close> in which \<^verbatim>\<open>.gz\<close> does not occur,
  named by an argument of the schema as \<open>t\<close> or as \<open>t\<close> followed by \<^verbatim>\<open>.gz\<close>, is a key
  of the flags map unchanged, with the flag of that argument when the schema is a
  dictionary and no other argument names the path; (4) every key of the flags map comes
  from a path that an argument of the schema names; (5) the schema
  \<^verbatim>\<open>{infile: input, outfile: output}\<close> with the arguments
  \<^verbatim>\<open>{infile: a.fits, outfile: b.fits.gz}\<close> gives exactly
  \<^verbatim>\<open>{a.fits: input, b.fits: output}\<close>, and the schema \<^verbatim>\<open>{args: input, outfile: output}\<close>
  with \<^verbatim>\<open>{args: "a.fits b.fits.gz", outfile: c.fits.gz}\<close> gives exactly
  \<^verbatim>\<open>{a.fits: input, b.fits: input, c.fits: output}\<close>. Nothing is said of a path that
  holds \<^verbatim>\<open>.gz\<close> elsewhere than at its end.
\<close>

theorem latch_file_info_normalization:
  "(take 4 k \<noteq> ''args'' \<longrightarrow>
      latch_file_info self (args(k \<mapsto> Some (p @ ''.gz''))) =
      latch_file_info self (args(k \<mapsto> Some p)))
   \<and> (take 4 k = ''args''
        \<and> list_all2 (\<lambda>t t'. t' = t \<or> t' = t @ ''.gz'') (str_split x) (str_split x') \<longrightarrow>
      latch_file_info self (args(k \<mapsto> Some x')) = latch_file_info self (args(k \<mapsto> Some x)))
   \<and> ((k, v) \<in> set (file_args self)
        \<and> (t \<in> set (arg_paths args k) \<or> t @ ''.gz'' \<in> set (arg_paths args k))
        \<and> \<not> str_contains t ''.gz'' \<longrightarrow>
      t \<in> fst ` set (file_dict (latch_file_info self args))
      \<and> (distinct (map fst (file_args self))
           \<and> (\<forall>(k', v') \<in> set (file_args self). k' \<noteq> k \<longrightarrow> t \<notin> set (normal_paths args k')) \<longrightarrow>
         map_of (file_dict (latch_file_info self args)) t = Some v))
   \<and> (q \<in> fst ` set (file_dict (latch_file_info self args)) \<longrightarrow>
      (\<exists>(k', v') \<in> set (file_args self). q \<in> set (normal_paths args k')))
   \<and> file_dict (latch_file_info io_link io_args) =
        [(''a.fits'', input_mask), (''b.fits'', output_mask)]
   \<and> file_dict (latch_file_info multi_link multi_args) =
        [(''a.fits'', input_mask), (''b.fits'', input_mask), (''c.fits'', output_mask)]"
proof (intro conjI impI)
  assume "take 4 k \<noteq> ''args''"
  then have "latch_entry (args(k \<mapsto> Some (p @ ''.gz''))) = latch_entry (args(k \<mapsto> Some p))"
    using latch_entry_single_gz by blast
  then show "latch_file_info self (args(k \<mapsto> Some (p @ ''.gz''))) =
      latch_file_info self (args(k \<mapsto> Some p))"
    by (simp add: latch_file_info_def)
next
  assume "take 4 k = ''args''
        \<and> list_all2 (\<lambda>t t'. t' = t \<or> t' = t @ ''.gz'') (str_split x) (str_split x')"
  then have "latch_entry (args(k \<mapsto> Some x')) = latch_entry (args(k \<mapsto> Some x))"
    using latch_entry_multi_gz by blast
  then show "latch_file_info self (args(k \<mapsto> Some x')) = latch_file_info self (args(k \<mapsto> Some x))"
    by (simp add: latch_file_info_def)
next
  assume h: "(k, v) \<in> set (file_args self)
        \<and> (t \<in> set (arg_paths args k) \<or> t @ ''.gz'' \<in> set (arg_paths args k))
        \<and> \<not> str_contains t ''.gz''"
  then have n: "t \<in> set (normal_paths args k)"
    using clean_path_normal by blast
  with h show "t \<in> fst ` set (file_dict (latch_file_info self args))"
    unfolding latch_file_info_def by (simp add: keys_fold_latch_entry_iff) blast
  assume u: "distinct (map fst (file_args self))
           \<and> (\<forall>(k', v') \<in> set (file_args self). k' \<noteq> k \<longrightarrow> t \<notin> set (normal_paths args k'))"
  show "map_of (file_dict (latch_file_info self args)) t = Some v"
    using h u n map_of_fold_latch_entry_unique[of k v "file_args self" t args "[]"]
    by (simp add: latch_file_info_def)
next
  assume "q \<in> fst ` set (file_dict (latch_file_info self args))"
  then show "\<exists>(k', v') \<in> set (file_args self). q \<in> set (normal_paths args k')"
    by (simp add: latch_file_info_def keys_fold_latch_entry_iff)
next
  show "file_dict (latch_file_info io_link io_args) =
        [(''a.fits'', input_mask), (''b.fits'', output_mask)]"
    by code_simp
next
  show "file_dict (latch_file_info multi_link multi_args) =
        [(''a.fits'', input_mask), (''b.fits'', input_mask), (''c.fits'', output_mask)]"
    by code_simp
qed

text \<open>
  Witness for C7, on the schema with the multi-file argument: the output argument with
  and without the suffix, the multi-file argument with and without the suffix on its
  second part, and the three paths as keys of the result with the flags of their
  arguments.
\<close>

theorem latch_file_info_normalization_witness:
  "latch_file_info multi_link (multi_args(''outfile'' \<mapsto> Some (''c.fits'' @ ''.gz''))) =
     latch_file_info multi_link (multi_args(''outfile'' \<mapsto> Some ''c.fits''))
   \<and> str_split ''a.fits b.fits'' = [''a.fits'', ''b.fits'']
   \<and> str_split ''a.fits b.fits.gz'' = [''a.fits'', ''b.fits.gz'']
   \<and> latch_file_info multi_link (multi_args(''args'' \<mapsto> Some ''a.fits b.fits.gz'')) =
     latch_file_info multi_link (multi_args(''args'' \<mapsto> Some ''a.fits b.fits''))
   \<and> arg_paths multi_args ''args'' = [''a.fits'', ''b.fits.gz'']
   \<and> arg_paths multi_args ''outfile'' = [''c.fits.gz'']
   \<and> map_of (file_dict (latch_file_info multi_link multi_args)) ''a.fits'' = Some input_mask
   \<and> map_of (file_dict (latch_file_info multi_link multi_args)) ''b.fits'' = Some input_mask
   \<and> map_of (file_dict (latch_file_info multi_link multi_args)) ''c.fits'' = Some output_mask
   \<and> (\<exists>(k', v') \<in> set (file_args multi_link). ''c.fits'' \<in> set (normal_paths multi_args k'))"
proof -
  have s1: "str_split ''a.fits b.fits'' = [''a.fits'', ''b.fits'']" by code_simp
  have s2: "str_split ''a.fits b.fits.gz'' = [''a.fits'', ''b.fits.gz'']" by code_simp
  have pa: "arg_paths multi_args ''args'' = [''a.fits'', ''b.fits.gz'']" by code_simp
  have po: "arg_paths multi_args ''outfile'' = [''c.fits.gz'']" by code_simp
  have na: "normal_paths multi_args ''args'' = [''a.fits'', ''b.fits'']" by code_simp
  have no: "normal_paths multi_args ''outfile'' = [''c.fits'']" by code_simp
  have fa: "file_args multi_link = [(''args'', input_mask), (''outfile'', output_mask)]"
    by (simp add: multi_link_def)
  have h1: "take 4 ''outfile'' \<noteq> ''args''" by simp
  have h2: "take 4 ''args'' = ''args''
      \<and> list_all2 (\<lambda>t t'. t' = t \<or> t' = t @ ''.gz'')
          (str_split ''a.fits b.fits'') (str_split ''a.fits b.fits.gz'')"
    by (simp add: s1 s2)
  have clean: "\<not> str_contains ''a.fits'' ''.gz''" "\<not> str_contains ''b.fits'' ''.gz''"
    "\<not> str_contains ''c.fits'' ''.gz''"
    by simp_all
  have ha: "(''args'', input_mask) \<in> set (file_args multi_link)
      \<and> (''a.fits'' \<in> set (arg_paths multi_args ''args'')
          \<or> ''a.fits'' @ ''.gz'' \<in> set (arg_paths multi_args ''args''))
      \<and> \<not> str_contains ''a.fits'' ''.gz''"
    using clean by (simp add: fa pa)
  have hb: "(''args'', input_mask) \<in> set (file_args multi_link)
      \<and> (''b.fits'' \<in> set (arg_paths multi_args ''args'')
          \<or> ''b.fits'' @ ''.gz'' \<in> set (arg_paths multi_args ''args''))
      \<and> \<not> str_contains ''b.fits'' ''.gz''"
    using clean by (simp add: fa pa)
  have hc: "(''outfile'', output_mask) \<in> set (file_args multi_link)
      \<and> (''c.fits'' \<in> set (arg_paths multi_args ''outfile'')
          \<or> ''c.fits'' @ ''.gz'' \<in> set (arg_paths multi_args ''outfile''))
      \<and> \<not> str_contains ''c.fits'' ''.gz''"
    using clean by (simp add: fa po)
  have ua: "distinct (map fst (file_args multi_link))
      \<and> (\<forall>(k', v') \<in> set (file_args multi_link).
            k' \<noteq> ''args'' \<longrightarrow> ''a.fits'' \<notin> set (normal_paths multi_args k'))"
    by (simp add: fa no)
  have ub: "distinct (map fst (file_args multi_link))
      \<and> (\<forall>(k', v') \<in> set (file_args multi_link).
            k' \<noteq> ''args'' \<longrightarrow> ''b.fits'' \<notin> set (normal_paths multi_args k'))"
    by (simp add: fa no)
  have uc: "distinct (map fst (file_args multi_link))
      \<and> (\<forall>(k', v') \<in> set (file_args multi_link).
            k' \<noteq> ''outfile'' \<longrightarrow> ''c.fits'' \<notin> set (normal_paths multi_args k'))"
    by (simp add: fa na)
  note t1 = latch_file_info_normalization[where k = "''outfile''" and p = "''c.fits''"
      and self = multi_link and args = multi_args, THEN conjunct1, THEN mp, OF h1]
  note t2 = latch_file_info_normalization[where k = "''args''" and x = "''a.fits b.fits''"
      and x' = "''a.fits b.fits.gz''" and self = multi_link and args = multi_args,
      THEN conjunct2, THEN conjunct1, THEN mp, OF h2]
  note ta = latch_file_info_normalization[where k = "''args''" and v = input_mask
      and t = "''a.fits''" and self = multi_link and args = multi_args,
      THEN conjunct2, THEN conjunct2, THEN conjunct1, THEN mp, OF ha,
      THEN conjunct2, THEN mp, OF ua]
  note tb = latch_file_info_normalization[where k = "''args''" and v = input_mask
      and t = "''b.fits''" and self = multi_link and args = multi_args,
      THEN conjunct2, THEN conjunct2, THEN conjunct1, THEN mp, OF hb,
      THEN conjunct2, THEN mp, OF ub]
  note tc = latch_file_info_normalization[where k = "''outfile''" and v = output_mask
      and t = "''c.fits''" and self = multi_link and args = multi_args,
      THEN conjunct2, THEN conjunct2, THEN conjunct1, THEN mp, OF hc]
  note tc1 = tc[THEN conjunct1] and tc2 = tc[THEN conjunct2, THEN mp, OF uc]
  note t4 = latch_file_info_normalization[where q = "''c.fits''" and self = multi_link
      and args = multi_args, THEN conjunct2, THEN conjunct2, THEN conjunct2, THEN conjunct1,
      THEN mp, OF tc1]
  from t1 s1 s2 t2 pa po ta tb tc2 t4 show ?thesis by (intro conjI)
qed

text \<open>
  Counterexample to C7 as stated: the path \<^verbatim>\<open>a.gz.fits\<close> has no trailing \<^verbatim>\<open>.gz\<close>,
  yet it is not left unchanged: it is entered as \<^verbatim>\<open>a.fits\<close>.
\<close>

theorem latch_file_info_inner_gz_counterexample:
  "file_dict (latch_file_info \<lparr>file_args = [(''infile'', input_mask)], file_dict = []\<rparr>
      [''infile'' \<mapsto> Some ''a.gz.fits'']) = [(''a.fits'', input_mask)]
   \<and> ''a.gz.fits'' \<notin> fst ` set (file_dict
        (latch_file_info \<lparr>file_args = [(''infile'', input_mask)], file_dict = []\<rparr>
           [''infile'' \<mapsto> Some ''a.gz.fits'']))"
  by (simp add: latch_file_info_def str_replace.simps)

section \<open>Merging classifiers: \<^verbatim>\<open>FileDict.update\<close>\<close>

lemma map_of_update_entry:
  "map_of (update_entry (k, v) fd) x =
     (if x = k then (case map_of fd k of None \<Rightarrow> Some v | Some u \<Rightarrow> Some (u OR v))
      else map_of fd x)"
  by (simp add: update_conv' split: option.splits)

lemma map_of_fold_update_entry:
  "distinct (map fst items) \<Longrightarrow>
   map_of (fold update_entry items fd) x =
     (case map_of items x of
        None \<Rightarrow> map_of fd x
      | Some v \<Rightarrow> (case map_of fd x of None \<Rightarrow> Some v | Some u \<Rightarrow> Some (u OR v)))"
proof (induction items arbitrary: fd)
  case Nil
  show ?case by simp
next
  case (Cons e items)
  obtain k v where e: "e = (k, v)" by (cases e)
  from Cons.prems e have d: "distinct (map fst items)" and k: "k \<notin> fst ` set items" by auto
  from k have none: "map_of items k = None" by (simp add: map_of_eq_None_iff)
  show ?case
    using Cons.IH[OF d, of "update_entry (k, v) fd"] e none
    by (auto simp: map_of_update_entry simp del: update_entry.simps split: option.splits)
qed

lemma distinct_fold_update_entry:
  "distinct (map fst fd) \<Longrightarrow> distinct (map fst (fold update_entry items fd))"
proof (induction items arbitrary: fd)
  case Nil
  then show ?case by simp
next
  case (Cons e items)
  obtain k v where e: "e = (k, v)" by (cases e)
  have "distinct (map fst (update_entry (k, v) fd))"
    using Cons.prems by (simp add: distinct_update split: option.splits)
  then show ?case using Cons.IH e by simp
qed

text \<open>
  Claim C8. \<^verbatim>\<open>FileDict.update\<close> ORs the flags of every path of the other dictionary
  into the entry of this one and creates the entry when the path is absent. On flags
  maps (dictionaries: the keys of each are distinct) the merge is commutative, the
  merge of a map into itself changes nothing, and the result is again a dictionary.
\<close>

theorem FileDict_update_or_commutative_idempotent:
  assumes "distinct (map fst (file_dict a))" and "distinct (map fst (file_dict b))"
  shows "map_of (file_dict (FileDict_update a (file_dict b))) p =
           (case map_of (file_dict b) p of
              None \<Rightarrow> map_of (file_dict a) p
            | Some v \<Rightarrow>
                (case map_of (file_dict a) p of None \<Rightarrow> Some v | Some u \<Rightarrow> Some (u OR v)))
       \<and> map_of (file_dict (FileDict_update a (file_dict b))) =
           map_of (file_dict (FileDict_update b (file_dict a)))
       \<and> map_of (file_dict (FileDict_update a (file_dict a))) = map_of (file_dict a)
       \<and> distinct (map fst (file_dict (FileDict_update a (file_dict b))))"
proof (intro conjI)
  show "map_of (file_dict (FileDict_update a (file_dict b))) p =
           (case map_of (file_dict b) p of
              None \<Rightarrow> map_of (file_dict a) p
            | Some v \<Rightarrow>
                (case map_of (file_dict a) p of None \<Rightarrow> Some v | Some u \<Rightarrow> Some (u OR v)))"
    using assms(2) by (simp add: FileDict_update_def map_of_fold_update_entry)
next
  show "map_of (file_dict (FileDict_update a (file_dict b))) =
           map_of (file_dict (FileDict_update b (file_dict a)))"
  proof
    fix x
    show "map_of (file_dict (FileDict_update a (file_dict b))) x =
           map_of (file_dict (FileDict_update b (file_dict a))) x"
      using assms
      by (simp add: FileDict_update_def map_of_fold_update_entry or.commute split: option.splits)
  qed
next
  show "map_of (file_dict (FileDict_update a (file_dict a))) = map_of (file_dict a)"
  proof
    fix x
    show "map_of (file_dict (FileDict_update a (file_dict a))) x = map_of (file_dict a) x"
      using assms(1)
      by (simp add: FileDict_update_def map_of_fold_update_entry split: option.splits)
  qed
next
  show "distinct (map fst (file_dict (FileDict_update a (file_dict b))))"
    using assms(1) by (simp add: FileDict_update_def distinct_fold_update_entry)
qed

text \<open>
  Witness for C8: merging \<open>link_b\<close> into \<open>link_a\<close> gives \<^verbatim>\<open>b.fits\<close> the flags
  \<^verbatim>\<open>output | input\<close> and creates \<^verbatim>\<open>c.fits\<close>.
\<close>

theorem FileDict_update_or_commutative_idempotent_witness:
  "distinct (map fst (file_dict link_a)) \<and> distinct (map fst (file_dict link_b))
   \<and> map_of (file_dict (FileDict_update link_a (file_dict link_b))) ''b.fits'' = Some 3
   \<and> map_of (file_dict (FileDict_update link_a (file_dict link_b))) ''c.fits'' = Some 16
   \<and> map_of (file_dict (FileDict_update link_a (file_dict link_b))) =
       map_of (file_dict (FileDict_update link_b (file_dict link_a)))
   \<and> map_of (file_dict (FileDict_update link_a (file_dict link_a))) = map_of (file_dict link_a)"
proof -
  have da: "distinct (map fst (file_dict link_a))" by (simp add: link_a_def)
  have db: "distinct (map fst (file_dict link_b))" by (simp add: link_b_def)
  have vb: "map_of (file_dict link_b) ''b.fits'' = Some 1"
    "map_of (file_dict link_a) ''b.fits'' = Some 2"
    "map_of (file_dict link_b) ''c.fits'' = Some 16"
    "map_of (file_dict link_a) ''c.fits'' = None"
    by (simp_all add: link_a_def link_b_def input_mask_def output_mask_def internal_mask_def)
  note b = FileDict_update_or_commutative_idempotent[OF da db, of "''b.fits''"]
  note c = FileDict_update_or_commutative_idempotent[OF da db, of "''c.fits''"]
  have "map_of (file_dict (FileDict_update link_a (file_dict link_b))) ''b.fits'' = Some 3"
    using b[THEN conjunct1] by (simp add: vb)
  moreover have "map_of (file_dict (FileDict_update link_a (file_dict link_b))) ''c.fits'' = Some 16"
    using c[THEN conjunct1] by (simp add: vb)
  ultimately show ?thesis
    using da db b[THEN conjunct2] by blast
qed

section \<open>Paths of the archive\<close>

text \<open>
  Claim C5, as amended. \<^verbatim>\<open>_get_localpath\<close> deletes the base path from the path and
  \<^verbatim>\<open>_get_fullpath\<close> joins the base path and a relative path, so the round trip returns
  the path when the base path ends with the separator (or is empty) and the path is the
  base path followed by a non-empty relative path that does not start with the
  separator and does not contain the base path again. A path that is already absolute
  is returned unchanged by \<^verbatim>\<open>_get_fullpath\<close>.
\<close>

theorem fullpath_localpath_roundtrip:
  "((base_path self = [] \<or> last (base_path self) = CHR ''/'') \<and> rel \<noteq> []
      \<and> hd rel \<noteq> CHR ''/''
      \<and> (base_path self \<noteq> [] \<longrightarrow> \<not> str_contains rel (base_path self)) \<longrightarrow>
     get_fullpath self (get_localpath self (base_path self @ rel)) = Inr (base_path self @ rel))
   \<and> get_fullpath self (CHR ''/'' # q) = Inr (CHR ''/'' # q)"
proof (intro conjI impI)
  show "get_fullpath self (CHR ''/'' # q) = Inr (CHR ''/'' # q)"
    by (simp add: get_fullpath_def)
next
  assume h: "(base_path self = [] \<or> last (base_path self) = CHR ''/'') \<and> rel \<noteq> []
      \<and> hd rel \<noteq> CHR ''/''
      \<and> (base_path self \<noteq> [] \<longrightarrow> \<not> str_contains rel (base_path self))"
  have lp: "get_localpath self (base_path self @ rel) = rel"
  proof (cases "base_path self = []")
    case True
    then show ?thesis by (simp add: get_localpath_def)
  next
    case False
    with h have "\<not> str_contains rel (base_path self)" by simp
    then have "str_replace rel (base_path self) [] = rel" by (rule str_replace_no_occurrence)
    then show ?thesis using False by (simp add: get_localpath_def str_replace_prefix)
  qed
  from h obtain c cs where rel: "rel = c # cs" "c \<noteq> CHR ''/''" by (cases rel) auto
  have "get_fullpath self rel = Inr (base_path self @ rel)"
    using h rel by (auto simp: get_fullpath_def os_path_join_def)
  then show "get_fullpath self (get_localpath self (base_path self @ rel)) =
      Inr (base_path self @ rel)"
    by (simp add: lp)
qed

text \<open>
  Witness for C5: with the base path \<^verbatim>\<open>/data/\<close> the path \<^verbatim>\<open>/data/run1/evt.fits\<close>
  has the local path \<^verbatim>\<open>run1/evt.fits\<close> and comes back from the round trip.
\<close>

theorem fullpath_localpath_roundtrip_witness:
  "last (base_path slash_archive) = CHR ''/''
   \<and> \<not> str_contains ''run1/evt.fits'' (base_path slash_archive)
   \<and> get_localpath slash_archive ''/data/run1/evt.fits'' = ''run1/evt.fits''
   \<and> get_fullpath slash_archive (get_localpath slash_archive ''/data/run1/evt.fits'') =
       Inr ''/data/run1/evt.fits''"
proof -
  have bp: "base_path slash_archive = ''/data/''"
    by (simp add: slash_archive_def FileArchive_init_def read_table_file_def fill_cache_def)
  have nc: "\<not> str_contains ''run1/evt.fits'' (base_path slash_archive)"
    by (simp add: bp)
  have h: "(base_path slash_archive = [] \<or> last (base_path slash_archive) = CHR ''/'')
      \<and> ''run1/evt.fits'' \<noteq> [] \<and> hd ''run1/evt.fits'' \<noteq> CHR ''/''
      \<and> (base_path slash_archive \<noteq> [] \<longrightarrow>
            \<not> str_contains ''run1/evt.fits'' (base_path slash_archive))"
    using nc by (simp add: bp)
  have lp: "get_localpath slash_archive ''/data/run1/evt.fits'' = ''run1/evt.fits''"
    by code_simp
  from fullpath_localpath_roundtrip
    [of slash_archive "''run1/evt.fits''", THEN conjunct1, THEN mp, OF h]
  have "get_fullpath slash_archive (get_localpath slash_archive ''/data/run1/evt.fits'') =
       Inr ''/data/run1/evt.fits''"
    by (simp add: bp)
  then show ?thesis using nc lp by (simp add: bp)
qed

text \<open>
  Counterexample to C5 as stated: with the base path \<^verbatim>\<open>/data\<close> the path
  \<^verbatim>\<open>/data/run1/evt.fits\<close> lies under the base path, its local path is
  \<^verbatim>\<open>/run1/evt.fits\<close>, which starts with the separator, and the round trip returns
  that local path, not the path.
\<close>

theorem fullpath_localpath_no_separator_counterexample:
  "base_path fresh_archive = ''/data''
   \<and> get_localpath fresh_archive ''/data/run1/evt.fits'' = ''/run1/evt.fits''
   \<and> get_fullpath fresh_archive (get_localpath fresh_archive ''/data/run1/evt.fits'') =
       Inr ''/run1/evt.fits''"
  by code_simp

lemma get_fullpath_nonempty:
  "filepath \<noteq> [] \<Longrightarrow> \<exists>fullpath. get_fullpath self filepath = Inr fullpath"
  by (cases filepath) (simp_all add: get_fullpath_def)

lemma get_localpath_cong:
  "base_path self1 = base_path self \<Longrightarrow> get_localpath self1 filepath = get_localpath self filepath"
  by (simp add: get_localpath_def)

section \<open>Registration\<close>

text \<open>The check at the head of \<^verbatim>\<open>register_file\<close> lets every path through.\<close>

lemma check_not_registered_passes: "check_not_registered self filepath = Inr ()"
  by (simp add: check_not_registered_def get_handle_def split: option.splits)

lemma register_file_not_exists:
  "status_in \<noteq> exists \<Longrightarrow>
   register_file fs self filepath creator_in status_in flags_in =
     (let h = \<lparr>key = int (length (table self)) + 1, creator = creator_in, timestamp = 0,
                status = status_in, flags = flags_in, path = get_localpath self filepath\<rparr>
      in (Inr h, self\<lparr>table := table self @ [h],
                      cache := AList.update (get_localpath self filepath) h (cache self)\<rparr>))"
  by (simp add: register_file_def check_not_registered_passes append_to_table_def Let_def)

lemma register_file_exists:
  "get_fullpath self filepath = Inr fullpath \<Longrightarrow>
   register_file fs self filepath creator_in exists flags_in =
     (let h = \<lparr>key = int (length (table self)) + 1, creator = creator_in,
                timestamp = (case fs fullpath of None \<Rightarrow> 0 | Some mtime \<Rightarrow> mtime),
                status = (case fs fullpath of None \<Rightarrow> missing | Some mtime \<Rightarrow> exists),
                flags = flags_in, path = get_localpath self filepath\<rparr>
      in (Inr h, self\<lparr>table := table self @ [h],
                      cache := AList.update (get_localpath self filepath) h (cache self)\<rparr>))"
  by (simp add: register_file_def check_not_registered_passes append_to_table_def Let_def
      split: option.splits)

lemma register_file_empty_path:
  "register_file fs self [] creator_in exists flags_in = (Inl IndexError, self)"
  by (simp add: register_file_def check_not_registered_passes get_fullpath_def)

text \<open>What a registration returns, in one statement.\<close>

lemma register_file_cases:
  "register_file fs self filepath c s f = (Inl IndexError, self) \<and> s = exists \<and> filepath = []
   \<or> (\<exists>h. register_file fs self filepath c s f =
          (Inr h, self\<lparr>table := table self @ [h],
                       cache := AList.update (get_localpath self filepath) h (cache self)\<rparr>)
        \<and> key h = int (length (table self)) + 1 \<and> path h = get_localpath self filepath
        \<and> (s = exists \<longrightarrow> filepath \<noteq> []))"
proof (cases "s = exists")
  case False
  then show ?thesis by (simp add: register_file_not_exists Let_def)
next
  case True
  show ?thesis
  proof (cases filepath)
    case Nil
    with True show ?thesis by (simp add: register_file_empty_path)
  next
    case (Cons a list)
    then obtain fullpath where "get_fullpath self filepath = Inr fullpath"
      using get_fullpath_nonempty[of filepath self] by auto
    with True Cons show ?thesis by (simp add: register_file_exists Let_def)
  qed
qed

text \<open>No registration raises \<^verbatim>\<open>KeyError\<close>, whether the path is tracked or not.\<close>

lemma register_file_never_KeyError:
  "fst (register_file fs self filepath c s f) \<noteq> Inl KeyError"
  using register_file_cases[of fs self filepath c s f] by auto

text \<open>
  Claim C1 says that \<^verbatim>\<open>register_file\<close> on a tracked path fails with the duplicate
  error (\<^verbatim>\<open>KeyError\<close>) and leaves the existing record and the record set as they are.
  On the code the second registration of \<^verbatim>\<open>/data/run1/evt.fits\<close> in the archive
  that already tracks it returns a new record with key 2: the table has two rows for the
  path, and the cache holds the new record in place of the one with key 1.
\<close>

theorem register_file_tracked_path_registers_again:
  "register_file evt_fs registered_archive evt_path 7 exists no_flags =
     (Inr \<lparr>key = 2, creator = 7, timestamp = 1000, status = exists, flags = 0,
           path = ''/run1/evt.fits''\<rparr>,
      \<lparr>table_file = ''file_archive.fits'',
       table = [\<lparr>key = 1, creator = 7, timestamp = 1000, status = exists, flags = 0,
                 path = ''/run1/evt.fits''\<rparr>,
                \<lparr>key = 2, creator = 7, timestamp = 1000, status = exists, flags = 0,
                 path = ''/run1/evt.fits''\<rparr>],
       cache = [(''/run1/evt.fits'',
                 \<lparr>key = 2, creator = 7, timestamp = 1000, status = exists, flags = 0,
                   path = ''/run1/evt.fits''\<rparr>)],
       base_path = ''/data''\<rparr>)"
  by code_simp

text \<open>
  Claim C9. The file of a registration is the one at the full path of the argument
  (\<^verbatim>\<open>_get_fullpath\<close>). Registering with status \<^verbatim>\<open>exists\<close> when that file is absent
  is not an error: the call returns a new record with status \<^verbatim>\<open>missing\<close> and
  timestamp 0 (the warning it prints is not part of the model); when the file is present
  the record has status \<^verbatim>\<open>exists\<close> and the modification time of the file as its
  timestamp. In both cases the record is appended to the table and stored in the cache.
\<close>

theorem register_file_exists_downgrade:
  assumes "get_fullpath self filepath = Inr fullpath"
  shows "(fs fullpath = None \<longrightarrow>
            register_file fs self filepath creator_in exists flags_in =
              (let h = \<lparr>key = int (length (table self)) + 1, creator = creator_in,
                         timestamp = 0, status = missing, flags = flags_in,
                         path = get_localpath self filepath\<rparr>
               in (Inr h, self\<lparr>table := table self @ [h],
                     cache := AList.update (get_localpath self filepath) h (cache self)\<rparr>)))
       \<and> (fs fullpath = Some mtime \<longrightarrow>
            register_file fs self filepath creator_in exists flags_in =
              (let h = \<lparr>key = int (length (table self)) + 1, creator = creator_in,
                         timestamp = mtime, status = exists, flags = flags_in,
                         path = get_localpath self filepath\<rparr>
               in (Inr h, self\<lparr>table := table self @ [h],
                     cache := AList.update (get_localpath self filepath) h (cache self)\<rparr>)))"
  using assms by (simp add: register_file_exists Let_def)

text \<open>
  Witness for C9: the file \<^verbatim>\<open>/data/run1/evt.fits\<close> registered in the fresh archive,
  once while it is on the disk (modified at 1000) and once while it is not.
\<close>

theorem register_file_exists_downgrade_witness:
  "get_fullpath fresh_archive evt_path = Inr evt_path
   \<and> evt_fs evt_path = Some 1000 \<and> Map.empty evt_path = (None :: int option)
   \<and> fst (register_file evt_fs fresh_archive evt_path 7 exists no_flags) =
       Inr \<lparr>key = 1, creator = 7, timestamp = 1000, status = exists, flags = 0,
             path = ''/run1/evt.fits''\<rparr>
   \<and> fst (register_file Map.empty fresh_archive evt_path 7 exists no_flags) =
       Inr \<lparr>key = 1, creator = 7, timestamp = 0, status = missing, flags = 0,
             path = ''/run1/evt.fits''\<rparr>"
proof -
  have fp: "get_fullpath fresh_archive evt_path = Inr evt_path"
    by (simp add: get_fullpath_def evt_path_def)
  have here: "evt_fs evt_path = Some 1000"
    by (simp add: evt_fs_def evt_path_def)
  have gone: "Map.empty evt_path = (None :: int option)"
    by simp
  have lp: "get_localpath fresh_archive evt_path = ''/run1/evt.fits''"
    by code_simp
  have tbl: "table fresh_archive = []"
    by (simp add: fresh_archive_def FileArchive_init_def read_table_file_def fill_cache_def)
  note present = register_file_exists_downgrade[OF fp, where fs = evt_fs and mtime = 1000
      and creator_in = 7 and flags_in = no_flags, THEN conjunct2, THEN mp, OF here]
  note absent = register_file_exists_downgrade[OF fp, where fs = Map.empty and mtime = 0
      and creator_in = 7 and flags_in = no_flags, THEN conjunct1, THEN mp, OF gone]
  have 1: "fst (register_file evt_fs fresh_archive evt_path 7 exists no_flags) =
       Inr \<lparr>key = 1, creator = 7, timestamp = 1000, status = exists, flags = 0,
             path = ''/run1/evt.fits''\<rparr>"
    by (simp only: present) (simp add: lp tbl Let_def no_flags_def)
  have 2: "fst (register_file Map.empty fresh_archive evt_path 7 exists no_flags) =
       Inr \<lparr>key = 1, creator = 7, timestamp = 0, status = missing, flags = 0,
             path = ''/run1/evt.fits''\<rparr>"
    by (simp only: absent) (simp add: lp tbl Let_def no_flags_def)
  show ?thesis using fp here 1 2 by simp
qed

section \<open>Updates\<close>

text \<open>
  An update to \<^verbatim>\<open>exists\<close> or \<^verbatim>\<open>superseded\<close> of a tracked path raises
  \<^verbatim>\<open>AttributeError\<close>, whatever the file system holds, and changes nothing.
\<close>

lemma update_file_exists_superseded:
  "get_handle self filepath = Inr h \<Longrightarrow> s = exists \<or> s = superseded \<Longrightarrow>
   update_file fs self filepath c s = (Inl AttributeError, self)"
  by (auto simp: update_file_def fullpath_attr_def)

lemma update_file_table: "table (snd (update_file fs self filepath c s)) = table self"
  by (simp add: update_file_def update_table_row_def Let_def split: sum.splits option.splits)

lemma update_file_key:
  "update_file fs self filepath c s = (Inr h, self1) \<Longrightarrow> get_handle self filepath = Inr h0 \<Longrightarrow>
     key h = key h0 \<and> path h = path h0 \<and> table self1 = table self"
  by (auto simp: update_file_def update_table_row_def Let_def
      split: sum.splits option.splits if_splits)

text \<open>An update, whether it succeeds or raises, keeps the key that the cache gives each path.\<close>

lemma alist_update_same_key:
  "map_of al k = Some h0 \<Longrightarrow> key h = key h0 \<Longrightarrow>
   map (\<lambda>(p, x). (p, key x)) (AList.update k h al) = map (\<lambda>(p, x). (p, key x)) al"
  by (induction al) (auto split: if_splits)

lemma update_file_cache_keys:
  "map (\<lambda>(p, x). (p, key x)) (cache (snd (update_file fs self filepath c s))) =
   map (\<lambda>(p, x). (p, key x)) (cache self)"
proof (cases "get_handle self filepath")
  case (Inl e)
  then show ?thesis by (simp add: update_file_def)
next
  case (Inr h0)
  then have m: "map_of (cache self) (get_localpath self filepath) = Some h0"
    by (simp add: get_handle_def split: option.splits)
  show ?thesis
    using Inr alist_update_same_key[OF m, of "h0\<lparr>creator := c, timestamp := 0, status := s\<rparr>"]
    by (auto simp: update_file_def fullpath_attr_def update_table_row_def Let_def
        split: sum.splits)
qed

text \<open>
  Claim C2 says that \<^verbatim>\<open>update_file\<close> with status \<^verbatim>\<open>exists\<close> or \<^verbatim>\<open>superseded\<close>
  on a tracked path whose file is absent fails with the inconsistency error
  (\<^verbatim>\<open>ValueError\<close>) and leaves the record, the record set and the table unchanged. On
  the code the archive is indeed unchanged, but the exception is \<^verbatim>\<open>AttributeError\<close>:
  the read of \<^verbatim>\<open>file_handle.fullpath\<close> fails before the file system is asked, and it
  fails in the same way when the file is present.
\<close>

theorem update_file_exists_raises_AttributeError:
  "get_handle registered_archive evt_path =
     Inr \<lparr>key = 1, creator = 7, timestamp = 1000, status = exists, flags = 0,
           path = ''/run1/evt.fits''\<rparr>
   \<and> update_file Map.empty registered_archive evt_path 7 exists =
       (Inl AttributeError, registered_archive)
   \<and> update_file Map.empty registered_archive evt_path 7 superseded =
       (Inl AttributeError, registered_archive)
   \<and> update_file evt_fs registered_archive evt_path 7 exists =
       (Inl AttributeError, registered_archive)"
  by code_simp

text \<open>
  Claim C3 says that the cache and the table hold the same records with the same field
  values in every state that registrations and updates reach, \<^verbatim>\<open>update_file\<close>
  rewriting the row of the record. On the code a successful update (here to
  \<^verbatim>\<open>temp_removed\<close>, by creator 8) changes the record of the cache and leaves the row of
  the table as it was registered.
\<close>

theorem update_file_leaves_table_row:
  "update_file Map.empty registered_archive evt_path 8 temp_removed =
     (Inr \<lparr>key = 1, creator = 8, timestamp = 0, status = temp_removed, flags = 0,
           path = ''/run1/evt.fits''\<rparr>,
      \<lparr>table_file = ''file_archive.fits'',
       table = [\<lparr>key = 1, creator = 7, timestamp = 1000, status = exists, flags = 0,
                 path = ''/run1/evt.fits''\<rparr>],
       cache = [(''/run1/evt.fits'',
                 \<lparr>key = 1, creator = 8, timestamp = 0, status = temp_removed, flags = 0,
                   path = ''/run1/evt.fits''\<rparr>)],
       base_path = ''/data''\<rparr>)"
  by code_simp

section \<open>Resolving paths to keys\<close>

lemma length_alist_update: "length (AList.update k v al) \<le> Suc (length al)"
  by (induction al) auto

lemma get_file_ids_tracked:
  assumes "map_of (cache self) (get_localpath self p) = Some h"
    and "\<forall>d. fd = Some d \<longrightarrow> map_of (file_dict d) p \<noteq> None"
  shows "get_file_ids fs self [p] c s fd = (Inr [key h], self)"
  using assms
  by (cases fd) (auto simp: get_file_ids_def get_handle_def split: option.splits)

text \<open>
  A path that can be registered (it is not empty, or the status is not \<^verbatim>\<open>exists\<close>) or
  that is tracked, and that the classifier holds when there is one, is resolved to one
  key, and resolving it again gives the same key and changes nothing.
\<close>

lemma get_file_ids_single_success:
  assumes "p \<noteq> [] \<or> s \<noteq> exists \<or> map_of (cache self) (get_localpath self p) \<noteq> None"
    and "\<forall>d. fd = Some d \<longrightarrow> map_of (file_dict d) p \<noteq> None"
  shows "(\<exists>k. fst (get_file_ids fs self [p] c s fd) = Inr [k])
       \<and> get_file_ids fs' (snd (get_file_ids fs self [p] c s fd)) [p] c s fd =
           get_file_ids fs self [p] c s fd
       \<and> length (table (snd (get_file_ids fs self [p] c s fd))) \<le> length (table self) + 1
       \<and> length (cache (snd (get_file_ids fs self [p] c s fd))) \<le> length (cache self) + 1"
proof (cases "map_of (cache self) (get_localpath self p)")
  case (Some h)
  have 1: "get_file_ids fs self [p] c s fd = (Inr [key h], self)"
    using Some assms(2) by (rule get_file_ids_tracked)
  have 2: "get_file_ids fs' self [p] c s fd = (Inr [key h], self)"
    using Some assms(2) by (rule get_file_ids_tracked)
  show ?thesis by (simp add: 1 2)
next
  case None
  with assms(1) have ne: "\<not> (s = exists \<and> p = [])" by auto
  obtain fl where fl: "(case fd of None \<Rightarrow> Inr no_flags
            | Some d \<Rightarrow> (case map_of (file_dict d) p of None \<Rightarrow> Inl KeyError | Some f \<Rightarrow> Inr f))
            = (Inr fl :: error + int)"
    using assms(2) by (cases fd) auto
  define cn where "cn = (case c of None \<Rightarrow> - 1 | Some c' \<Rightarrow> c')"
  from register_file_cases[of fs self p cn s fl] ne
  obtain h where reg: "register_file fs self p cn s fl =
          (Inr h, self\<lparr>table := table self @ [h],
                       cache := AList.update (get_localpath self p) h (cache self)\<rparr>)"
    by auto
  define self1 where "self1 = self\<lparr>table := table self @ [h],
                       cache := AList.update (get_localpath self p) h (cache self)\<rparr>"
  have 1: "get_file_ids fs self [p] c s fd = (Inr [key h], self1)"
    using None fl reg by (simp add: get_file_ids_def get_handle_def cn_def self1_def)
  have lp: "get_localpath self1 p = get_localpath self p"
    by (rule get_localpath_cong) (simp add: self1_def)
  have "map_of (cache self1) (get_localpath self1 p) = Some h"
    by (simp add: lp) (simp add: self1_def update_conv')
  then have 2: "get_file_ids fs' self1 [p] c s fd = (Inr [key h], self1)"
    using assms(2) by (rule get_file_ids_tracked)
  have 3: "length (cache self1) \<le> length (cache self) + 1"
    using length_alist_update[of "get_localpath self p" h "cache self"] by (simp add: self1_def)
  show ?thesis using 3 by (simp add: 1 2) (simp add: self1_def)
qed

text \<open>
  Claim C4. A path is a non-empty string. For every archive, path \<open>p\<close>, creator and
  status, \<^verbatim>\<open>get_file_ids\<close> on \<open>[p]\<close> returns a list of one key; a second call with the
  same arguments, whatever the file system holds by then, returns the same list and
  leaves the archive as the first call left it; the table and the cache grow by at most
  one record across the two calls. The same holds with a classifier whose flags map
  holds \<open>p\<close>.
\<close>

theorem get_file_ids_idempotent:
  assumes "p \<noteq> []"
  shows "(\<exists>k. fst (get_file_ids fs self [p] c s None) = Inr [k]
            \<and> fst (get_file_ids fs' (snd (get_file_ids fs self [p] c s None)) [p] c s None) =
                Inr [k])
       \<and> snd (get_file_ids fs' (snd (get_file_ids fs self [p] c s None)) [p] c s None) =
           snd (get_file_ids fs self [p] c s None)
       \<and> length (table (snd (get_file_ids fs self [p] c s None))) \<le> length (table self) + 1
       \<and> length (cache (snd (get_file_ids fs self [p] c s None))) \<le> length (cache self) + 1
       \<and> (map_of (file_dict d) p \<noteq> None \<longrightarrow>
            (\<exists>k. fst (get_file_ids fs self [p] c s (Some d)) = Inr [k]
               \<and> fst (get_file_ids fs' (snd (get_file_ids fs self [p] c s (Some d))) [p] c s
                    (Some d)) = Inr [k])
            \<and> snd (get_file_ids fs' (snd (get_file_ids fs self [p] c s (Some d))) [p] c s
                 (Some d)) = snd (get_file_ids fs self [p] c s (Some d))
            \<and> length (table (snd (get_file_ids fs self [p] c s (Some d)))) \<le>
                length (table self) + 1
            \<and> length (cache (snd (get_file_ids fs self [p] c s (Some d)))) \<le>
                length (cache self) + 1)"
proof -
  have ok: "p \<noteq> [] \<or> s \<noteq> exists \<or> map_of (cache self) (get_localpath self p) \<noteq> None"
    using assms by simp
  have none: "\<forall>d'. (None :: FileDict option) = Some d' \<longrightarrow> map_of (file_dict d') p \<noteq> None"
    by simp
  note a = get_file_ids_single_success[OF ok none, of fs c fs']
  have b: "map_of (file_dict d) p \<noteq> None \<longrightarrow>
      (\<exists>k. fst (get_file_ids fs self [p] c s (Some d)) = Inr [k]
         \<and> fst (get_file_ids fs' (snd (get_file_ids fs self [p] c s (Some d))) [p] c s
              (Some d)) = Inr [k])
      \<and> snd (get_file_ids fs' (snd (get_file_ids fs self [p] c s (Some d))) [p] c s
           (Some d)) = snd (get_file_ids fs self [p] c s (Some d))
      \<and> length (table (snd (get_file_ids fs self [p] c s (Some d)))) \<le>
          length (table self) + 1
      \<and> length (cache (snd (get_file_ids fs self [p] c s (Some d)))) \<le>
          length (cache self) + 1"
  proof
    assume "map_of (file_dict d) p \<noteq> None"
    then have some: "\<forall>d'. Some d = Some d' \<longrightarrow> map_of (file_dict d') p \<noteq> None"
      by simp
    from get_file_ids_single_success[OF ok some, of fs c fs']
    show "(\<exists>k. fst (get_file_ids fs self [p] c s (Some d)) = Inr [k]
         \<and> fst (get_file_ids fs' (snd (get_file_ids fs self [p] c s (Some d))) [p] c s
              (Some d)) = Inr [k])
      \<and> snd (get_file_ids fs' (snd (get_file_ids fs self [p] c s (Some d))) [p] c s
           (Some d)) = snd (get_file_ids fs self [p] c s (Some d))
      \<and> length (table (snd (get_file_ids fs self [p] c s (Some d)))) \<le>
          length (table self) + 1
      \<and> length (cache (snd (get_file_ids fs self [p] c s (Some d)))) \<le>
          length (cache self) + 1"
      by auto
  qed
  from a b show ?thesis by auto
qed

text \<open>
  Witness for C4: in the fresh archive \<^verbatim>\<open>c.fits\<close> is resolved with creator 3 and
  status \<^verbatim>\<open>expected\<close>, without a classifier and with the classifier \<open>link_b\<close>; the
  first call registers the path and returns \<open>[1]\<close>, the second call returns \<open>[1]\<close>
  again and the table keeps its one row.
\<close>

theorem get_file_ids_idempotent_witness:
  "''c.fits'' \<noteq> []
   \<and> get_file_ids evt_fs fresh_archive [''c.fits''] (Some 3) expected None =
       (Inr [1], fresh_archive\<lparr>
          table := [\<lparr>key = 1, creator = 3, timestamp = 0, status = expected, flags = 0,
                     path = ''c.fits''\<rparr>],
          cache := [(''c.fits'', \<lparr>key = 1, creator = 3, timestamp = 0, status = expected,
                     flags = 0, path = ''c.fits''\<rparr>)]\<rparr>)
   \<and> fst (get_file_ids Map.empty
        (snd (get_file_ids evt_fs fresh_archive [''c.fits''] (Some 3) expected None))
        [''c.fits''] (Some 3) expected None) = Inr [1]
   \<and> length (table (snd (get_file_ids Map.empty
        (snd (get_file_ids evt_fs fresh_archive [''c.fits''] (Some 3) expected None))
        [''c.fits''] (Some 3) expected None))) = 1
   \<and> map_of (file_dict link_b) ''c.fits'' = Some internal_mask
   \<and> fst (get_file_ids evt_fs fresh_archive [''c.fits''] (Some 3) expected (Some link_b)) =
       Inr [1]
   \<and> fst (get_file_ids Map.empty
        (snd (get_file_ids evt_fs fresh_archive [''c.fits''] (Some 3) expected (Some link_b)))
        [''c.fits''] (Some 3) expected (Some link_b)) = Inr [1]"
proof -
  have h: "''c.fits'' \<noteq> []" by simp
  have v: "map_of (file_dict link_b) ''c.fits'' = Some internal_mask"
    by (simp add: link_b_def)
  then have v': "map_of (file_dict link_b) ''c.fits'' \<noteq> None" by simp
  note t = get_file_ids_idempotent[OF h, where fs = evt_fs and self = fresh_archive
      and c = "Some 3" and s = expected and d = link_b and fs' = Map.empty]
  have e: "get_file_ids evt_fs fresh_archive [''c.fits''] (Some 3) expected None =
       (Inr [1], fresh_archive\<lparr>
          table := [\<lparr>key = 1, creator = 3, timestamp = 0, status = expected, flags = 0,
                     path = ''c.fits''\<rparr>],
          cache := [(''c.fits'', \<lparr>key = 1, creator = 3, timestamp = 0, status = expected,
                     flags = 0, path = ''c.fits''\<rparr>)]\<rparr>)"
    by code_simp
  have e': "fst (get_file_ids evt_fs fresh_archive [''c.fits''] (Some 3) expected
      (Some link_b)) = Inr [1]"
    by code_simp
  from t[THEN conjunct1] e
  have second: "fst (get_file_ids Map.empty
        (snd (get_file_ids evt_fs fresh_archive [''c.fits''] (Some 3) expected None))
        [''c.fits''] (Some 3) expected None) = Inr [1]"
    by auto
  from t[THEN conjunct2, THEN conjunct1] e
  have same: "length (table (snd (get_file_ids Map.empty
        (snd (get_file_ids evt_fs fresh_archive [''c.fits''] (Some 3) expected None))
        [''c.fits''] (Some 3) expected None))) = 1"
    by simp
  from t[THEN conjunct2, THEN conjunct2, THEN conjunct2, THEN conjunct2, THEN mp, OF v',
      THEN conjunct1] e'
  have second': "fst (get_file_ids Map.empty
        (snd (get_file_ids evt_fs fresh_archive [''c.fits''] (Some 3) expected (Some link_b)))
        [''c.fits''] (Some 3) expected (Some link_b)) = Inr [1]"
    by auto
  from h e second same v e' second' show ?thesis by (intro conjI)
qed

text \<open>
  The empty string is not a path. With the status \<^verbatim>\<open>exists\<close> its registration reads
  \<^verbatim>\<open>filepath[0]\<close> in \<^verbatim>\<open>_get_fullpath\<close> and raises \<^verbatim>\<open>IndexError\<close>.
\<close>

lemma get_file_ids_empty_string:
  "get_file_ids evt_fs fresh_archive [''''] (Some 3) exists None =
     (Inl IndexError, fresh_archive)"
  by code_simp

lemma get_file_ids_loop_missing_flags:
  assumes "map_of (file_dict d) p = None"
  shows "get_file_ids_loop fs s (Some d) (pre @ p # rest) rl c self =
           (case get_file_ids_loop fs s (Some d) pre rl c self of
              (Inl e, self1) \<Rightarrow> (Inl e, self1)
            | (Inr ks, self1) \<Rightarrow> (Inl KeyError, self1))"
proof (induction pre arbitrary: rl c self)
  case Nil
  show ?case using assms by simp
next
  case (Cons q pre)
  show ?case
    by (simp add: Cons.IH Let_def split: option.splits sum.splits error.splits prod.splits)
qed

text \<open>
  Claim C10. With a classifier, a path of the list that its flags map does not hold
  makes \<^verbatim>\<open>get_file_ids\<close> raise \<^verbatim>\<open>KeyError\<close> when the loop reaches it, before the path
  is looked up or registered: as the first path of the list the archive is unchanged;
  after a prefix of paths the call ends as the call on that prefix alone ends, with
  \<^verbatim>\<open>KeyError\<close> in place of the keys.
\<close>

theorem get_file_ids_missing_flags_KeyError:
  assumes "map_of (file_dict d) p = None"
  shows "get_file_ids fs self (p # rest) c s (Some d) = (Inl KeyError, self)
       \<and> get_file_ids fs self (pre @ p # rest) c s (Some d) =
           (case get_file_ids fs self pre c s (Some d) of
              (Inl e, self1) \<Rightarrow> (Inl e, self1)
            | (Inr ks, self1) \<Rightarrow> (Inl KeyError, self1))"
  using assms get_file_ids_loop_missing_flags[OF assms]
  by (simp add: get_file_ids_def)

text \<open>
  Witness for C10: the classifier \<open>link_a\<close> holds \<^verbatim>\<open>a.fits\<close> and \<^verbatim>\<open>b.fits\<close> but not
  \<^verbatim>\<open>zz.fits\<close>. As the first path \<^verbatim>\<open>zz.fits\<close> leaves the fresh archive unchanged;
  after \<^verbatim>\<open>a.fits\<close> the archive holds \<^verbatim>\<open>a.fits\<close> alone.
\<close>

theorem get_file_ids_missing_flags_KeyError_witness:
  "map_of (file_dict link_a) ''zz.fits'' = None
   \<and> get_file_ids evt_fs fresh_archive [''zz.fits'', ''a.fits''] (Some 3) expected
        (Some link_a) = (Inl KeyError, fresh_archive)
   \<and> get_file_ids evt_fs fresh_archive ([''a.fits''] @ ''zz.fits'' # [''b.fits'']) (Some 3)
        expected (Some link_a) =
       (Inl KeyError,
        snd (get_file_ids evt_fs fresh_archive [''a.fits''] (Some 3) expected (Some link_a)))
   \<and> map path (table (snd (get_file_ids evt_fs fresh_archive
        ([''a.fits''] @ ''zz.fits'' # [''b.fits'']) (Some 3) expected (Some link_a)))) =
       [''a.fits'']"
proof -
  have h: "map_of (file_dict link_a) ''zz.fits'' = None"
    by (simp add: link_a_def)
  note t1 = get_file_ids_missing_flags_KeyError[OF h, of evt_fs fresh_archive "[''a.fits'']"
      "Some 3" expected "[]", THEN conjunct1]
  note t2 = get_file_ids_missing_flags_KeyError[OF h, of evt_fs fresh_archive "[''b.fits'']"
      "Some 3" expected "[''a.fits'']", THEN conjunct2]
  have pre: "get_file_ids evt_fs fresh_archive [''a.fits''] (Some 3) expected (Some link_a) =
      (Inr [1], fresh_archive\<lparr>
          table := [\<lparr>key = 1, creator = 3, timestamp = 0, status = expected, flags = 1,
                     path = ''a.fits''\<rparr>],
          cache := [(''a.fits'', \<lparr>key = 1, creator = 3, timestamp = 0, status = expected,
                     flags = 1, path = ''a.fits''\<rparr>)]\<rparr>)"
    by code_simp
  show ?thesis using h t1 t2 by (simp add: pre)
qed

section \<open>Keys\<close>

lemma keys_consecutive_snoc:
  "keys_consecutive tbl \<Longrightarrow> key h = int (length tbl) + 1 \<Longrightarrow> keys_consecutive (tbl @ [h])"
  by (simp add: keys_consecutive_def)

lemma keys_consecutive_sorted:
  assumes "keys_consecutive tbl"
  shows "sorted_wrt (<) (map key tbl) \<and> distinct (map key tbl)"
proof -
  from assms have eq: "map key tbl = map int [1..<Suc (length tbl)]"
    by (simp add: keys_consecutive_def)
  have "sorted_wrt (\<lambda>x y. int x < int y) [1..<Suc (length tbl)]"
    by (simp del: upt_Suc)
  then have "sorted_wrt (<) (map int [1..<Suc (length tbl)])"
    by (simp only: sorted_wrt_map)
  moreover have "distinct (map int [1..<Suc (length tbl)])"
    by (simp add: distinct_map inj_on_def)
  ultimately show ?thesis using eq by simp
qed

lemma register_file_table:
  "prefix (table self) (table (snd (register_file fs self filepath c s f)))
   \<and> (keys_consecutive (table self) \<longrightarrow>
        keys_consecutive (table (snd (register_file fs self filepath c s f))))"
  using register_file_cases[of fs self filepath c s f]
  by (auto simp: keys_consecutive_snoc)

lemma get_file_ids_loop_table:
  "prefix (table self) (table (snd (get_file_ids_loop fs s fd file_list rl c self)))
   \<and> (keys_consecutive (table self) \<longrightarrow>
        keys_consecutive (table (snd (get_file_ids_loop fs s fd file_list rl c self))))"
proof (induction file_list arbitrary: rl c self)
  case Nil
  show ?case by simp
next
  case (Cons fname file_list)
  show ?case
  proof (cases "case fd of None \<Rightarrow> Inr no_flags
            | Some d \<Rightarrow> (case map_of (file_dict d) fname of
                           None \<Rightarrow> Inl KeyError | Some f \<Rightarrow> (Inr f :: error + int))")
    case (Inl e)
    then show ?thesis by simp
  next
    case (Inr fl)
    note flags_found = this
    show ?thesis
    proof (cases "get_handle self fname")
      case (Inr h)
      then show ?thesis using flags_found Cons.IH by simp
    next
      case (Inl e)
      note untracked = this
      then have e: "e = KeyError" by (simp add: get_handle_def split: option.splits)
      define cn where "cn = (case c of None \<Rightarrow> - 1 | Some c' \<Rightarrow> c')"
      obtain r self1 where reg: "register_file fs self fname cn s fl = (r, self1)"
        by (cases "register_file fs self fname cn s fl")
      have t1: "prefix (table self) (table self1)"
        "keys_consecutive (table self) \<longrightarrow> keys_consecutive (table self1)"
        using register_file_table[of self fs fname cn s fl] reg by simp_all
      show ?thesis
      proof (cases r)
        case (Inl e')
        then show ?thesis using flags_found untracked e reg t1
          by (simp add: cn_def)
      next
        case (Inr h)
        have step: "get_file_ids_loop fs s fd (fname # file_list) rl c self =
              get_file_ids_loop fs s fd file_list (rl @ [key h]) (Some cn) self1"
          using flags_found untracked e reg Inr
          by (simp add: cn_def)
        show ?thesis
          unfolding step
          using Cons.IH[of self1 "rl @ [key h]" "Some cn"] t1
          by (auto intro: prefix_order.trans)
      qed
    qed
  qed
qed

lemma apply_op_table:
  "prefix (table self) (table (apply_op op self))
   \<and> (keys_consecutive (table self) \<longrightarrow> keys_consecutive (table (apply_op op self)))"
proof (cases op)
  case (Pair fs aop)
  show ?thesis
  proof (cases aop)
    case (Register p c s f)
    with Pair show ?thesis using register_file_table by simp
  next
    case (Update p c s)
    with Pair show ?thesis by (simp add: update_file_table)
  next
    case (GetFileIds ps c s fd)
    with Pair show ?thesis using get_file_ids_loop_table by (simp add: get_file_ids_def)
  qed
qed

lemma run_table:
  "prefix (table self) (table (run ops self))
   \<and> (keys_consecutive (table self) \<longrightarrow> keys_consecutive (table (run ops self)))"
  unfolding run_def
proof (induction ops arbitrary: self)
  case Nil
  show ?case by simp
next
  case (Cons op ops)
  show ?case
    using apply_op_table[of self op] Cons.IH[of "apply_op op self"]
    by (auto intro: prefix_order.trans)
qed

lemma fresh_table: "table (FileArchive_init bp tf None) = []"
  by (simp add: FileArchive_init_def read_table_file_def fill_cache_def)

text \<open>
  Claim C6. A successful registration assigns the key \<open>length table + 1\<close> and appends
  the record to the table. An update keeps the key and the path of the record, does
  not touch the table and, whether it succeeds or raises, leaves every path of the cache
  with the key it had. Through any sequence of registrations, updates (logical
  removals among them) and resolutions, whatever the file system holds at each call and
  whether the calls succeed or raise, the rows that the table has stay as they are
  (the table only grows at its end), and a table whose keys are \<open>1, ..., n\<close> in order
  becomes a table whose keys are \<open>1, ..., n'\<close> in order. From a fresh archive the keys
  of the table are therefore always \<open>1, ..., n\<close>: strictly increasing, pairwise
  different, none assigned twice.
\<close>

theorem keys_increasing_never_reused:
  "(register_file fs self filepath c s f = (Inr h, self1) \<longrightarrow>
      key h = int (length (table self)) + 1 \<and> table self1 = table self @ [h])
   \<and> (update_file fs self filepath c s = (Inr h, self1) \<and> get_handle self filepath = Inr h0 \<longrightarrow>
      key h = key h0 \<and> path h = path h0 \<and> table self1 = table self)
   \<and> map (\<lambda>(p, x). (p, key x)) (cache (snd (update_file fs self filepath c s))) =
       map (\<lambda>(p, x). (p, key x)) (cache self)
   \<and> prefix (table self) (table (run ops self))
   \<and> (keys_consecutive (table self) \<longrightarrow> keys_consecutive (table (run ops self)))
   \<and> keys_consecutive (table (run ops (FileArchive_init bp tf None)))
   \<and> sorted_wrt (<) (map key (table (run ops (FileArchive_init bp tf None))))
   \<and> distinct (map key (table (run ops (FileArchive_init bp tf None))))"
proof -
  have a: "register_file fs self filepath c s f = (Inr h, self1) \<longrightarrow>
      key h = int (length (table self)) + 1 \<and> table self1 = table self @ [h]"
    using register_file_cases[of fs self filepath c s f] by auto
  have b: "update_file fs self filepath c s = (Inr h, self1) \<and> get_handle self filepath = Inr h0 \<longrightarrow>
      key h = key h0 \<and> path h = path h0 \<and> table self1 = table self"
    using update_file_key by blast
  have "keys_consecutive (table (FileArchive_init bp tf None))"
    by (simp add: fresh_table keys_consecutive_def)
  then have c: "keys_consecutive (table (run ops (FileArchive_init bp tf None)))"
    using run_table by blast
  show ?thesis
    using a b c run_table[of self ops] keys_consecutive_sorted[OF c]
      update_file_cache_keys[of fs self filepath c s]
    by blast
qed

text \<open>
  Witness for C6: the file is registered in the fresh archive (key 1), then marked
  removed (the key stays 1), then \<^verbatim>\<open>c.fits\<close> is resolved; the keys of the table are
  1 and 2.
\<close>

theorem keys_increasing_never_reused_witness:
  "register_file evt_fs fresh_archive evt_path 7 exists no_flags =
     (Inr \<lparr>key = 1, creator = 7, timestamp = 1000, status = exists, flags = 0,
           path = ''/run1/evt.fits''\<rparr>, registered_archive)
   \<and> get_handle registered_archive evt_path =
       Inr \<lparr>key = 1, creator = 7, timestamp = 1000, status = exists, flags = 0,
             path = ''/run1/evt.fits''\<rparr>
   \<and> fst (update_file Map.empty registered_archive evt_path 8 temp_removed) =
       Inr \<lparr>key = 1, creator = 8, timestamp = 0, status = temp_removed, flags = 0,
             path = ''/run1/evt.fits''\<rparr>
   \<and> keys_consecutive (table fresh_archive)
   \<and> prefix (table registered_archive) (table (run example_ops registered_archive))
   \<and> keys_consecutive (table (run example_ops fresh_archive))
   \<and> map key (table (run example_ops fresh_archive)) = [1, 2]"
proof -
  define h1 where "h1 = \<lparr>key = 1, creator = 7, timestamp = 1000, status = exists, flags = 0,
           path = ''/run1/evt.fits''\<rparr>"
  define h2 where "h2 = \<lparr>key = 1, creator = 8, timestamp = 0, status = temp_removed,
           flags = 0, path = ''/run1/evt.fits''\<rparr>"
  have reg: "register_file evt_fs fresh_archive evt_path 7 exists no_flags =
      (Inr h1, registered_archive)"
    unfolding h1_def by code_simp
  have gh: "get_handle registered_archive evt_path = Inr h1"
    unfolding h1_def by code_simp
  have ufst: "fst (update_file Map.empty registered_archive evt_path 8 temp_removed) = Inr h2"
    unfolding h2_def by code_simp
  define self2 where
    "self2 = snd (update_file Map.empty registered_archive evt_path 8 temp_removed)"
  have upd: "update_file Map.empty registered_archive evt_path 8 temp_removed = (Inr h2, self2)"
    using ufst by (simp add: self2_def prod_eq_iff)
  have kc: "keys_consecutive (table fresh_archive)"
    by code_simp
  have fresh: "fresh_archive = FileArchive_init ''/data'' ''file_archive.fits'' None"
    by (simp add: fresh_archive_def)
  note t1 = keys_increasing_never_reused[where fs = evt_fs and self = fresh_archive
      and filepath = evt_path and c = 7 and s = exists and f = no_flags and h = h1
      and ?self1.0 = registered_archive and ops = example_ops and bp = "''/data''"
      and tf = "''file_archive.fits''"]
  note t2 = keys_increasing_never_reused[where fs = Map.empty and self = registered_archive
      and filepath = evt_path and c = 8 and s = temp_removed and h = h2
      and ?self1.0 = self2 and ?h0.0 = h1 and ops = example_ops]
  have "key h1 = int (length (table fresh_archive)) + 1"
    using t1 reg by blast
  have "key h2 = key h1 \<and> path h2 = path h1 \<and> table self2 = table registered_archive"
    using t2 upd gh by blast
  have p: "prefix (table registered_archive) (table (run example_ops registered_archive))"
    using t2 by blast
  have k: "keys_consecutive (table (run example_ops fresh_archive))"
    using t1 kc by (simp add: fresh)
  have l: "length (table (run example_ops fresh_archive)) = 2"
    by code_simp
  have "map key (table (run example_ops fresh_archive)) =
      map int [1..<Suc (length (table (run example_ops fresh_archive)))]"
    using k by (simp only: keys_consecutive_def)
  also have "\<dots> = map int [1..<Suc 2]"
    by (simp only: l)
  also have "\<dots> = [1, 2]"
    by code_simp
  finally have m: "map key (table (run example_ops fresh_archive)) = [1, 2]" .
  show ?thesis using reg gh ufst kc p k m by (simp add: h1_def h2_def)
qed

end
